theory Spec2Isabelle
  imports Main "HOL-Library.AList"
begin

section \<open>Conventions of the embedding\<close>

text \<open>
  The program is JavaScript. Its values are modelled as follows.
  \<^item> A number that holds an entity id or a delay is an \<^typ>\<open>int\<close> or a \<^typ>\<open>nat\<close>. JavaScript
    numbers are IEEE doubles; they agree with the integers up to \<open>MAX_SAFE_INTEGER\<close>
    (\<open>2^53 - 1\<close>), which is the range the ids of this application live in.
  \<^item> A string is a \<^typ>\<open>string\<close>, a list of characters read as code units below 256.
  \<^item> \<open>null\<close> and \<open>NaN\<close> results are \<open>None\<close> of an option type.
  \<^item> An object literal used as a lookup table is an association list; reading a property
    also consults \<open>Object.prototype\<close>, as JavaScript does.
\<close>

definition MAX_SAFE_INTEGER :: int where
  "MAX_SAFE_INTEGER = 2 ^ 53 - 1"


section \<open>Composite keys (\<open>utils/keyUtils.js\<close>)\<close>

subsection \<open>The library functions the module calls\<close>

text \<open>\<open>String.prototype.split\<close> with a separator of one character: the pieces between
  the occurrences of the separator, so the empty string gives one empty piece.\<close>

fun split :: "char \<Rightarrow> string \<Rightarrow> string list" where
  "split sep [] = [[]]"
| "split sep (c # cs) =
     (if c = sep then [] # split sep cs
      else (case split sep cs of
              [] \<Rightarrow> [[c]]
            | p # ps \<Rightarrow> (c # p) # ps))"

text \<open>The characters \<open>parseInt\<close> skips at the start of its argument: TAB, LF, VT, FF, CR,
  space and the no-break space.\<close>

definition isWhiteSpace :: "char \<Rightarrow> bool" where
  "isWhiteSpace c \<longleftrightarrow> of_char c \<in> {9, 10, 11, 12, 13, 32, 160 :: nat}"

definition isDigit :: "char \<Rightarrow> bool" where
  "isDigit c \<longleftrightarrow> (48 :: nat) \<le> of_char c \<and> of_char c \<le> (57 :: nat)"

definition digitValue :: "char \<Rightarrow> nat" where
  "digitValue c = of_char c - 48"

definition digitsValue :: "string \<Rightarrow> nat" where
  "digitsValue ds = foldl (\<lambda>acc c. 10 * acc + digitValue c) 0 ds"

text \<open>\<open>parseInt(s, 10)\<close>: skip leading white space, read an optional sign, then the longest
  run of decimal digits; whatever follows the digits is ignored. No digit at that place
  gives \<open>NaN\<close>, which is \<open>None\<close> here.\<close>

definition parseInt :: "string \<Rightarrow> int option" where
  "parseInt s =
     (let S = dropWhile isWhiteSpace s;
          sign = (if S \<noteq> [] \<and> hd S = CHR ''-'' then - 1 else 1 :: int);
          S' = (if S \<noteq> [] \<and> (hd S = CHR ''+'' \<or> hd S = CHR ''-'') then tl S else S);
          Z = takeWhile isDigit S'
      in if Z = [] then None else Some (sign * int (digitsValue Z)))"

text \<open>The text of an integer in a template literal, \<open>`${id}`\<close>: its decimal digits, with a
  minus sign when negative.\<close>

definition digitChar :: "nat \<Rightarrow> char" where
  "digitChar d = char_of (48 + d)"

fun decimal :: "nat \<Rightarrow> string" where
  "decimal n = (if n < 10 then [digitChar n] else decimal (n div 10) @ [digitChar (n mod 10)])"

declare decimal.simps [simp del]

definition numberToString :: "int \<Rightarrow> string" where
  "numberToString i = (if i < 0 then CHR ''-'' # decimal (nat (- i)) else decimal (nat i))"

text \<open>Reading a property of an object literal, \<open>obj[name]\<close>. The own properties of the two
  tables of this module are strings. A name the literal does not define is looked up in
  \<open>Object.prototype\<close>, whose members are functions (and, for \<open>__proto__\<close>, an object);
  any other name gives \<open>undefined\<close>.\<close>

datatype property = Str string | Builtin string | Undefined

definition Object_prototype :: "string list" where
  "Object_prototype =
     [''constructor'', ''hasOwnProperty'', ''isPrototypeOf'', ''propertyIsEnumerable'',
      ''toLocaleString'', ''toString'', ''valueOf'', ''__proto__'',
      ''__defineGetter__'', ''__defineSetter__'', ''__lookupGetter__'', ''__lookupSetter__'']"

definition getProperty :: "(string \<times> string) list \<Rightarrow> string \<Rightarrow> property" where
  "getProperty obj name =
     (case map_of obj name of
        Some v \<Rightarrow> Str v
      | None \<Rightarrow> if name \<in> set Object_prototype then Builtin name else Undefined)"

text \<open>What \<open>!v\<close> tests: the empty string and \<open>undefined\<close> are falsy, functions and objects
  are truthy.\<close>

fun truthy :: "property \<Rightarrow> bool" where
  "truthy (Str v) = (v \<noteq> [])"
| "truthy (Builtin m) = True"
| "truthy Undefined = False"


subsection \<open>\<open>parseJiraKey\<close>, \<open>createJiraKey\<close>, \<open>getIdFromKey\<close>\<close>

definition typeMap :: "(string \<times> string) list" where
  "typeMap =
     [(''AS'', ''assignee''), (''ST'', ''status''), (''UM'', ''unit_model''),
      (''RO'', ''repair_order''), (''RU'', ''repair_unit'')]"

definition prefixMap :: "(string \<times> string) list" where
  "prefixMap =
     [(''assignee'', ''AS''), (''status'', ''ST''), (''unit_model'', ''UM''),
      (''repair_order'', ''RO''), (''repair_unit'', ''RU'')]"

text \<open>The object \<open>{ type, id, prefix }\<close> that \<open>parseJiraKey\<close> returns.\<close>

record parsed_key =
  key_type :: property
  key_id :: int
  key_prefix :: string

text \<open>\<open>parseJiraKey(key)\<close> for a string \<open>key\<close> (for any other value the first line of the
  function returns \<open>null\<close>). \<open>None\<close> is \<open>null\<close>. Each operation the function performs
  (\<open>split\<close>, \<open>parseInt\<close>, \<open>isNaN\<close>, the property read) is defined on every string, so no
  branch of it throws.\<close>

definition parseJiraKey :: "string \<Rightarrow> parsed_key option" where
  "parseJiraKey key =
     (if key = [] then None
      else
        let parts = split CHR ''-'' key in
        if length parts \<noteq> 2 then None
        else
          let prefix = parts ! 0;
              idStr = parts ! 1
          in case parseInt idStr of
               None \<Rightarrow> None
             | Some n \<Rightarrow>
                 let type = getProperty typeMap prefix in
                 if \<not> truthy type then None
                 else Some \<lparr>key_type = type, key_id = n, key_prefix = prefix\<rparr>)"

text \<open>The result of \<open>createJiraKey\<close>: a key, \<open>null\<close>, or, when the type names a member of
  \<open>Object.prototype\<close>, the source text of that member followed by the id, which depends
  on the JavaScript engine and is not modelled further.\<close>

datatype created_key = Key string | Null | BuiltinText string string

definition createJiraKey :: "string \<Rightarrow> int \<Rightarrow> created_key" where
  "createJiraKey type n =
     (let prefix = getProperty prefixMap type in
      if \<not> truthy prefix then Null
      else case prefix of
             Str p \<Rightarrow> Key (p @ ''-'' @ numberToString n)
           | Builtin m \<Rightarrow> BuiltinText m (''-'' @ numberToString n)
           | Undefined \<Rightarrow> Null)"

definition getIdFromKey :: "string \<Rightarrow> int option" where
  "getIdFromKey key = (case parseJiraKey key of Some parsed \<Rightarrow> Some (key_id parsed) | None \<Rightarrow> None)"


section \<open>Reconciliation of a collection (\<open>useOrdersData\<close>)\<close>

text \<open>A record of a collection: its numeric \<open>id\<close> and the rest of its fields. The hook keeps
  two collections, orders and statuses, and runs the same code on each.\<close>

record 'a entity =
  entity_id :: int
  entity_fields :: 'a

text \<open>\<open>Array.prototype.findIndex\<close>; \<open>None\<close> is the result \<open>-1\<close>.\<close>

fun findIndex :: "('a \<Rightarrow> bool) \<Rightarrow> 'a list \<Rightarrow> nat option" where
  "findIndex P [] = None"
| "findIndex P (x # xs) = (if P x then Some 0 else map_option Suc (findIndex P xs))"

text \<open>The body of the \<open>forEach\<close> of an \<open>update\<close> message, for one record of \<open>data\<close>.\<close>

definition upsert :: "'a entity list \<Rightarrow> 'a entity \<Rightarrow> 'a entity list" where
  "upsert newOrders orderData =
     (case findIndex (\<lambda>ord. entity_id ord = entity_id orderData) newOrders of
        Some index \<Rightarrow> newOrders[index := orderData]
      | None \<Rightarrow> newOrders @ [orderData])"

text \<open>The messages of a channel, by their \<open>type\<close> field, and the state update the effect
  makes for each: the new collection from the previous one.\<close>

datatype 'a message = Update "'a entity list" | Delete "string list" | Other

fun reconcile :: "'a message \<Rightarrow> 'a entity list \<Rightarrow> 'a entity list" where
  "reconcile (Update data) prevOrders = foldl upsert prevOrders data"
| "reconcile (Delete data) prevOrders =
     (let keysToDelete = set (map getIdFromKey data)
      in filter (\<lambda>ord. Some (entity_id ord) \<notin> keysToDelete) prevOrders)"
| "reconcile Other prevOrders = prevOrders"

text \<open>A sequence of messages, applied in order.\<close>

definition reconcileAll :: "'a message list \<Rightarrow> 'a entity list \<Rightarrow> 'a entity list" where
  "reconcileAll msgs coll = foldl (\<lambda>c m. reconcile m c) coll msgs"


section \<open>The connection manager (\<open>WebSocketService\<close>)\<close>

subsection \<open>State\<close>

text \<open>A transport is one \<open>WebSocket\<close> object. The model keeps every transport that
  \<open>new WebSocket\<close> has created, in creation order, and names a transport by its position.
  With each transport goes the promise that the creating \<open>connect()\<close> call returned, and
  who holds that promise: application code (the hook \<open>useWebSocket\<close>) or the timer
  callback of \<open>attemptReconnect\<close>, whose \<open>then\<close> re-subscribes.\<close>

datatype readyState = CONNECTING | OPEN | CLOSING | CLOSED

datatype settled = Pending | Fulfilled | Rejected

datatype caller = Application | ReconnectTimer

record transport =
  readyState :: readyState
  promise :: settled
  caller :: caller

text \<open>The messages the service passes to \<open>ws.send\<close> (the \<open>data\<close> of an \<open>update\<close> is kept
  as its text), and the messages it receives, as \<open>handleMessage\<close> tells them apart.\<close>

datatype frame =
    Subscribe "string list"
  | UpdateFrame string string
  | DeleteFrame string "string list"

datatype inbound = ConnectedMessage string | ChannelMessage string | Unparsable

text \<open>The fields of the service, then its surroundings: the transports, the calls of
  \<open>setTimeout\<close> in order (the delay, and whether the timer has fired), and the frames a
  transport has accepted for sending. \<open>subscribers\<close> is the \<open>Map\<close> from a channel to its
  \<open>Set\<close> of callbacks, both in insertion order; a callback is named by a number.\<close>

record service =
  ws :: "nat option"
  websocketId :: "string option"
  connected :: bool
  subscribers :: "(string \<times> nat list) list"
  reconnectAttempts :: nat
  maxReconnectAttempts :: nat
  reconnectDelay :: nat
  transports :: "transport list"
  timeouts :: "(nat \<times> bool) list"
  wire :: "(nat \<times> frame) list"

text \<open>The constructor.\<close>

definition newService :: service where
  "newService =
     \<lparr>ws = None, websocketId = None, connected = False, subscribers = [],
      reconnectAttempts = 0, maxReconnectAttempts = 10, reconnectDelay = 1000,
      transports = [], timeouts = [], wire = []\<rparr>"

text \<open>A call either returns or throws; the state it leaves behind is kept in both cases.\<close>

datatype outcome = Returns service | Throws service

fun state_of :: "outcome \<Rightarrow> service" where
  "state_of (Returns s) = s"
| "state_of (Throws s) = s"


subsection \<open>Methods\<close>

text \<open>\<open>connect()\<close>, up to the return of the promise: a new transport, stored in \<open>this.ws\<close>.
  The four handlers it installs are \<open>onopen\<close>, \<open>onmessage\<close>, \<open>onerror\<close> and \<open>onclose\<close>
  below.\<close>

definition connect :: "caller \<Rightarrow> service \<Rightarrow> service" where
  "connect who s =
     s\<lparr>ws := Some (length (transports s)),
       transports := transports s @ [\<lparr>readyState = CONNECTING, promise = Pending, caller = who\<rparr>]\<rparr>"

text \<open>\<open>WebSocket.send\<close> on transport \<open>k\<close>: it throws \<open>InvalidStateError\<close> while the
  transport is connecting, transmits when it is open, and drops the data otherwise.\<close>

definition wsSend :: "nat \<Rightarrow> frame \<Rightarrow> service \<Rightarrow> outcome" where
  "wsSend k message s =
     (if k < length (transports s)
      then (case readyState (transports s ! k) of
              CONNECTING \<Rightarrow> Throws s
            | OPEN \<Rightarrow> Returns (s\<lparr>wire := wire s @ [(k, message)]\<rparr>)
            | CLOSING \<Rightarrow> Returns s
            | CLOSED \<Rightarrow> Returns s)
      else Returns s)"

text \<open>\<open>send(message)\<close>: the \<open>else\<close> branch only logs \<open>WebSocket not connected\<close>.\<close>

definition send :: "frame \<Rightarrow> service \<Rightarrow> outcome" where
  "send message s =
     (case ws s of
        Some k \<Rightarrow> if connected s then wsSend k message s else Returns s
      | None \<Rightarrow> Returns s)"

definition subscribeToChannels :: "string list \<Rightarrow> service \<Rightarrow> outcome" where
  "subscribeToChannels channelArray s = send (Subscribe channelArray) s"

definition sendUpdate :: "string \<Rightarrow> string \<Rightarrow> service \<Rightarrow> outcome" where
  "sendUpdate channel data s = send (UpdateFrame channel data) s"

definition sendDelete :: "string \<Rightarrow> string list \<Rightarrow> service \<Rightarrow> outcome" where
  "sendDelete channel keys s = send (DeleteFrame channel keys) s"

text \<open>\<open>Set.prototype.add\<close> on a set kept in insertion order.\<close>

definition add :: "'a \<Rightarrow> 'a list \<Rightarrow> 'a list" where
  "add x xs = (if x \<in> set xs then xs else xs @ [x])"

text \<open>\<open>subscribe(channel, callback)\<close>. The function it returns calls
  \<open>unsubscribe(channel, callback)\<close>, so the handle is \<open>unsubscribe channel callback\<close>.\<close>

definition subscribe :: "string \<Rightarrow> nat \<Rightarrow> service \<Rightarrow> outcome" where
  "subscribe channel callback s =
     (case (if map_of (subscribers s) channel = None
            then subscribeToChannels [channel]
                   (s\<lparr>subscribers := AList.update channel [] (subscribers s)\<rparr>)
            else Returns s) of
        Throws s' \<Rightarrow> Throws s'
      | Returns s' \<Rightarrow>
          (case map_of (subscribers s') channel of
             None \<Rightarrow> Throws s'
           | Some callbacks \<Rightarrow>
               Returns (s'\<lparr>subscribers :=
                            AList.update channel (add callback callbacks) (subscribers s')\<rparr>)))"

definition unsubscribe :: "string \<Rightarrow> nat \<Rightarrow> service \<Rightarrow> service" where
  "unsubscribe channel callback s =
     (case map_of (subscribers s) channel of
        None \<Rightarrow> s
      | Some callbacks \<Rightarrow>
          let callbacks' = removeAll callback callbacks in
          if length callbacks' = 0
          then s\<lparr>subscribers := AList.delete channel (subscribers s)\<rparr>
          else s\<lparr>subscribers := AList.update channel callbacks' (subscribers s)\<rparr>)"

text \<open>\<open>attemptReconnect()\<close>, up to the call of \<open>setTimeout\<close>.\<close>

definition attemptReconnect :: "service \<Rightarrow> service" where
  "attemptReconnect s =
     (if reconnectAttempts s \<ge> maxReconnectAttempts s then s
      else
        let s' = s\<lparr>reconnectAttempts := reconnectAttempts s + 1\<rparr>;
            delay = reconnectDelay s' * 2 ^ (reconnectAttempts s' - 1)
        in s'\<lparr>timeouts := timeouts s' @ [(delay, False)]\<rparr>)"

text \<open>The callbacks \<open>attemptReconnect\<close> attaches to the promise of its \<open>connect()\<close>: \<open>then\<close>
  re-subscribes, and an exception in it goes to \<open>catch\<close>, which only logs.\<close>

definition resubscribe :: "service \<Rightarrow> service" where
  "resubscribe s =
     (let channels = map fst (subscribers s) in
      if length channels > 0 then state_of (subscribeToChannels channels s) else s)"

text \<open>\<open>handleMessage(data)\<close>. The callbacks of a channel are application code and do not
  change the service by themselves; a message that does not parse is logged.\<close>

fun handleMessage :: "inbound \<Rightarrow> service \<Rightarrow> service" where
  "handleMessage (ConnectedMessage i) s = s\<lparr>websocketId := Some i\<rparr>"
| "handleMessage (ChannelMessage channel) s = s"
| "handleMessage Unparsable s = s"

text \<open>The handlers of transport \<open>k\<close>, a transport that exists. \<open>resolve\<close> and \<open>reject\<close> act
  on a pending promise only, and the callbacks of the promise run right after the
  handler.\<close>

definition settle :: "nat \<Rightarrow> settled \<Rightarrow> service \<Rightarrow> service" where
  "settle k v s = s\<lparr>transports := (transports s)[k := (transports s ! k)\<lparr>promise := v\<rparr>]\<rparr>"

definition onopen :: "nat \<Rightarrow> service \<Rightarrow> service" where
  "onopen k s =
     (let s' = s\<lparr>connected := True, reconnectAttempts := 0\<rparr> in
      if promise (transports s' ! k) = Pending
      then (case caller (transports s' ! k) of
              ReconnectTimer \<Rightarrow> resubscribe (settle k Fulfilled s')
            | Application \<Rightarrow> settle k Fulfilled s')
      else s')"

definition onerror :: "nat \<Rightarrow> service \<Rightarrow> service" where
  "onerror k s = (if promise (transports s ! k) = Pending then settle k Rejected s else s)"

definition onclose :: "service \<Rightarrow> service" where
  "onclose s = attemptReconnect (s\<lparr>connected := False, websocketId := None\<rparr>)"

text \<open>\<open>close()\<close>; \<open>WebSocket.close\<close> starts the closing handshake of a transport that is
  connecting or open.\<close>

definition setReadyState :: "nat \<Rightarrow> readyState \<Rightarrow> service \<Rightarrow> service" where
  "setReadyState k r s =
     s\<lparr>transports := (transports s)[k := (transports s ! k)\<lparr>readyState := r\<rparr>]\<rparr>"

definition wsClose :: "nat \<Rightarrow> service \<Rightarrow> service" where
  "wsClose k s =
     (if k < length (transports s)
         \<and> (readyState (transports s ! k) = CONNECTING \<or> readyState (transports s ! k) = OPEN)
      then setReadyState k CLOSING s else s)"

definition close :: "service \<Rightarrow> service" where
  "close s =
     (case ws s of
        None \<Rightarrow> s
      | Some k \<Rightarrow> (wsClose k s)\<lparr>ws := None, connected := False, websocketId := None,
                                subscribers := []\<rparr>)"


subsection \<open>Events\<close>

text \<open>The service runs on one event loop: calls from application code, events of the
  transports and timers, one at a time. A transport opens while it is connecting, delivers
  messages while it is open, and closes once, either cleanly (\<open>close\<close> only) or with an
  \<open>error\<close> event before the \<open>close\<close> event. \<open>step\<close> gives the state after an event, and
  \<open>None\<close> when the event cannot happen in that state.\<close>

datatype event =
    AppConnect
  | AppSubscribe string nat
  | AppUnsubscribe string nat
  | AppSendUpdate string string
  | AppSendDelete string "string list"
  | AppClose
  | Opens nat
  | Message nat inbound
  | Fails nat
  | Closes nat
  | TimerFires nat

fun step :: "event \<Rightarrow> service \<Rightarrow> service option" where
  "step AppConnect s = Some (connect Application s)"
| "step (AppSubscribe channel callback) s = Some (state_of (subscribe channel callback s))"
| "step (AppUnsubscribe channel callback) s = Some (unsubscribe channel callback s)"
| "step (AppSendUpdate channel data) s = Some (state_of (sendUpdate channel data s))"
| "step (AppSendDelete channel keys) s = Some (state_of (sendDelete channel keys s))"
| "step AppClose s = Some (close s)"
| "step (Opens k) s =
     (if k < length (transports s) \<and> readyState (transports s ! k) = CONNECTING
      then Some (onopen k (setReadyState k OPEN s)) else None)"
| "step (Message k m) s =
     (if k < length (transports s) \<and> readyState (transports s ! k) = OPEN
      then Some (handleMessage m s) else None)"
| "step (Fails k) s =
     (if k < length (transports s) \<and> readyState (transports s ! k) \<noteq> CLOSED
      then Some (onclose (onerror k (setReadyState k CLOSED s))) else None)"
| "step (Closes k) s =
     (if k < length (transports s) \<and> readyState (transports s ! k) \<noteq> CLOSED
      then Some (onclose (setReadyState k CLOSED s)) else None)"
| "step (TimerFires i) s =
     (if i < length (timeouts s) \<and> \<not> snd (timeouts s ! i)
      then Some (connect ReconnectTimer
                   (s\<lparr>timeouts := (timeouts s)[i := (fst (timeouts s ! i), True)]\<rparr>))
      else None)"

fun run :: "event list \<Rightarrow> service \<Rightarrow> service option" where
  "run [] s = Some s"
| "run (e # es) s = (case step e s of None \<Rightarrow> None | Some s' \<Rightarrow> run es s')"

text \<open>A run of consecutive failures: the application's \<open>connect()\<close> fails, then each
  scheduled attempt is made when its timer fires and fails in turn. \<open>failures n\<close> ends with
  the failure of attempt \<open>n\<close>.\<close>

fun failures :: "nat \<Rightarrow> event list" where
  "failures 0 = [AppConnect, Fails 0]"
| "failures (Suc n) = failures n @ [TimerFires n, Fails (Suc n)]"

text \<open>The state in which retrying has stopped: the ceiling is reached, no timer is
  pending and no transport is connecting.\<close>

definition exhausted :: "service \<Rightarrow> bool" where
  "exhausted s \<longleftrightarrow>
     reconnectAttempts s \<ge> maxReconnectAttempts s
     \<and> (\<forall>t\<in>set (timeouts s). snd t)
     \<and> (\<forall>t\<in>set (transports s). readyState t \<noteq> CONNECTING)"

text \<open>The state after \<open>failures n\<close>, for a run that starts from the constructor's state and
  stays below the ceiling, and the state once the tenth attempt has failed.\<close>

definition failedState :: "nat \<Rightarrow> service" where
  "failedState n =
     \<lparr>ws = Some n, websocketId = None, connected = False, subscribers = [],
      reconnectAttempts = Suc n, maxReconnectAttempts = 10, reconnectDelay = 1000,
      transports =
        \<lparr>readyState = CLOSED, promise = Rejected, caller = Application\<rparr>
        # replicate n \<lparr>readyState = CLOSED, promise = Rejected, caller = ReconnectTimer\<rparr>,
      timeouts = map (\<lambda>i. (1000 * 2 ^ i, True)) [0..<n] @ [(1000 * 2 ^ n, False)],
      wire = []\<rparr>"

definition stoppedState :: service where
  "stoppedState =
     \<lparr>ws = Some 10, websocketId = None, connected = False, subscribers = [],
      reconnectAttempts = 10, maxReconnectAttempts = 10, reconnectDelay = 1000,
      transports =
        \<lparr>readyState = CLOSED, promise = Rejected, caller = Application\<rparr>
        # replicate 10 \<lparr>readyState = CLOSED, promise = Rejected, caller = ReconnectTimer\<rparr>,
      timeouts = map (\<lambda>i. (1000 * 2 ^ i, True)) [0..<9] @ [(1000 * 2 ^ 9, True)],
      wire = []\<rparr>"

text \<open>What holds of every state the service can reach: the keys of the \<open>Map\<close> are distinct,
  the promise of a connecting transport is pending, and \<open>this.ws\<close> is a transport that
  exists.\<close>

definition wellformed :: "service \<Rightarrow> bool" where
  "wellformed s \<longleftrightarrow>
     distinct (map fst (subscribers s))
     \<and> (\<forall>t\<in>set (transports s). readyState t = CONNECTING \<longrightarrow> promise t = Pending)
     \<and> (case ws s of Some k \<Rightarrow> k < length (transports s) | None \<Rightarrow> True)"

text \<open>A reconnection under way: the first transport opens and a listener subscribes to
  \<open>main:orders\<close>, the transport closes, and the timer fires and starts attempt 1. Then
  the state at that point.\<close>

definition retrying :: "event list" where
  "retrying = [AppConnect, Opens 0, AppSubscribe ''main:orders'' 0, Closes 0, TimerFires 0]"

definition retryingState :: service where
  "retryingState =
     \<lparr>ws = Some 1, websocketId = None, connected = False,
      subscribers = [(''main:orders'', [0])],
      reconnectAttempts = 1, maxReconnectAttempts = 10, reconnectDelay = 1000,
      transports =
        [\<lparr>readyState = CLOSED, promise = Fulfilled, caller = Application\<rparr>,
         \<lparr>readyState = CONNECTING, promise = Pending, caller = ReconnectTimer\<rparr>],
      timeouts = [(1000, True)],
      wire = [(0, Subscribe [''main:orders''])]\<rparr>"

text \<open>The same with an application that calls \<open>connect()\<close> while attempt 1 is in flight,
  before attempt 1 succeeds, and the state at the end.\<close>

definition racingConnect :: "event list" where
  "racingConnect = retrying @ [AppConnect, Opens 1]"

definition racedState :: service where
  "racedState =
     \<lparr>ws = Some 2, websocketId = None, connected = True,
      subscribers = [(''main:orders'', [0])],
      reconnectAttempts = 0, maxReconnectAttempts = 10, reconnectDelay = 1000,
      transports =
        [\<lparr>readyState = CLOSED, promise = Fulfilled, caller = Application\<rparr>,
         \<lparr>readyState = OPEN, promise = Fulfilled, caller = ReconnectTimer\<rparr>,
         \<lparr>readyState = CONNECTING, promise = Pending, caller = Application\<rparr>],
      timeouts = [(1000, True)],
      wire = [(0, Subscribe [''main:orders''])]\<rparr>"

text \<open>Attempt 1 succeeds with no other call in between: the state after \<open>retrying\<close> and
  the \<open>open\<close> event of transport 1.\<close>

definition reopenedState :: service where
  "reopenedState =
     \<lparr>ws = Some 1, websocketId = None, connected = True,
      subscribers = [(''main:orders'', [0])],
      reconnectAttempts = 0, maxReconnectAttempts = 10, reconnectDelay = 1000,
      transports =
        [\<lparr>readyState = CLOSED, promise = Fulfilled, caller = Application\<rparr>,
         \<lparr>readyState = OPEN, promise = Fulfilled, caller = ReconnectTimer\<rparr>],
      timeouts = [(1000, True)],
      wire = [(0, Subscribe [''main:orders'']), (1, Subscribe [''main:orders''])]\<rparr>"

text \<open>A service whose only transport is open.\<close>

definition openState :: service where
  "openState =
     \<lparr>ws = Some 0, websocketId = None, connected = True, subscribers = [],
      reconnectAttempts = 0, maxReconnectAttempts = 10, reconnectDelay = 1000,
      transports = [\<lparr>readyState = OPEN, promise = Fulfilled, caller = Application\<rparr>],
      timeouts = [], wire = []\<rparr>"


text \<open>The listeners of a channel, none when the channel has no entry, and the registries
  in which no entry holds an empty set.\<close>

definition listeners :: "service \<Rightarrow> string \<Rightarrow> nat list" where
  "listeners s channel =
     (case map_of (subscribers s) channel of None \<Rightarrow> [] | Some callbacks \<Rightarrow> callbacks)"

definition noEmptySets :: "service \<Rightarrow> bool" where
  "noEmptySets s \<longleftrightarrow> (\<forall>entry\<in>set (subscribers s). snd entry \<noteq> [])"

text \<open>A \<open>subscribe\<close> made while the manager is connected and its current transport is
  still connecting: the first transport is open, the application calls \<open>connect()\<close> again
  and subscribes to \<open>main:orders\<close>. Then the state once the second transport has opened.\<close>

definition subscribeWhileConnecting :: "event list" where
  "subscribeWhileConnecting = [AppConnect, Opens 0, AppConnect, AppSubscribe ''main:orders'' 1]"

definition residueState :: service where
  "residueState =
     \<lparr>ws = Some 1, websocketId = None, connected = True,
      subscribers = [(''main:orders'', [])],
      reconnectAttempts = 0, maxReconnectAttempts = 10, reconnectDelay = 1000,
      transports =
        [\<lparr>readyState = OPEN, promise = Fulfilled, caller = Application\<rparr>,
         \<lparr>readyState = OPEN, promise = Fulfilled, caller = Application\<rparr>],
      timeouts = [], wire = []\<rparr>"


section \<open>Properties of the composite keys\<close>

subsection \<open>Digits\<close>

lemma isDigit_digitChar: "d < 10 \<Longrightarrow> isDigit (digitChar d)"
  by (simp add: isDigit_def digitChar_def)

lemma digitValue_digitChar: "d < 10 \<Longrightarrow> digitValue (digitChar d) = d"
  by (simp add: digitValue_def digitChar_def)

lemma decimal_digits: "c \<in> set (decimal n) \<Longrightarrow> isDigit c"
proof (induction n arbitrary: c rule: decimal.induct)
  case (1 n)
  show ?case
  proof (cases "n < 10")
    case True
    with "1.prems" show ?thesis
      by (simp add: decimal.simps [of n] isDigit_digitChar)
  next
    case False
    with "1.prems" "1.IH" show ?thesis
      by (auto simp: decimal.simps [of n] isDigit_digitChar)
  qed
qed

lemma decimal_not_Nil: "decimal n \<noteq> []"
  by (simp add: decimal.simps [of n])

lemma digitsValue_snoc: "digitsValue (ds @ [c]) = 10 * digitsValue ds + digitValue c"
  by (simp add: digitsValue_def)

lemma digitsValue_decimal: "digitsValue (decimal n) = n"
proof (induction n rule: decimal.induct)
  case (1 n)
  show ?case
  proof (cases "n < 10")
    case True
    then show ?thesis
      by (simp add: decimal.simps [of n] digitsValue_def digitValue_digitChar)
  next
    case False
    then have "digitsValue (decimal n) = 10 * (n div 10) + n mod 10"
      using "1.IH" by (simp add: decimal.simps [of n] digitsValue_snoc digitValue_digitChar)
    then show ?thesis by simp
  qed
qed

lemma isDigit_not_special:
  "isDigit c \<Longrightarrow> \<not> isWhiteSpace c \<and> c \<noteq> CHR ''-'' \<and> c \<noteq> CHR ''+''"
  by (auto simp: isDigit_def isWhiteSpace_def)

lemma dash_notin_decimal: "CHR ''-'' \<notin> set (decimal n)"
  using decimal_digits isDigit_not_special by blast

subsection \<open>\<open>parseInt\<close> and \<open>split\<close>\<close>

lemma parseInt_digits:
  assumes "ds \<noteq> []" and "\<forall>c\<in>set ds. isDigit c"
  shows "parseInt ds = Some (int (digitsValue ds))"
proof -
  obtain c cs where ds: "ds = c # cs" using assms(1) by (cases ds) auto
  then have c: "\<not> isWhiteSpace c" "c \<noteq> CHR ''-''" "c \<noteq> CHR ''+''"
    using assms(2) isDigit_not_special by auto
  have "takeWhile isDigit ds = ds" using assms(2) by (simp add: takeWhile_eq_all_conv)
  then show ?thesis using c assms(1) by (simp add: parseInt_def ds)
qed

lemma parseInt_decimal: "parseInt (decimal n) = Some (int n)"
  using parseInt_digits [of "decimal n"] decimal_digits decimal_not_Nil
  by (simp add: digitsValue_decimal)

lemma split_no_sep: "sep \<notin> set s \<Longrightarrow> split sep s = [s]"
  by (induction s) auto

lemma split_one_sep:
  "sep \<notin> set p \<Longrightarrow> sep \<notin> set s \<Longrightarrow> split sep (p @ sep # s) = [p, s]"
  by (induction p) (auto simp: split_no_sep)

subsection \<open>Decoding an encoded key\<close>

lemma parseJiraKey_encoded:
  assumes "map_of typeMap p = Some t" and "0 \<le> n"
  shows "parseJiraKey (p @ ''-'' @ numberToString n) =
           Some \<lparr>key_type = Str t, key_id = n, key_prefix = p\<rparr>"
proof -
  have p: "CHR ''-'' \<notin> set p" "t \<noteq> []"
    using assms(1) by (auto simp: typeMap_def split: if_splits)
  have n: "numberToString n = decimal (nat n)"
    using assms(2) by (simp add: numberToString_def)
  have "split CHR ''-'' (p @ ''-'' @ numberToString n) = [p, decimal (nat n)]"
    using p(1) dash_notin_decimal by (simp add: n split_one_sep)
  then show ?thesis
    using assms p(2) by (simp add: parseJiraKey_def parseInt_decimal getProperty_def)
qed

text \<open>
  \<^bold>\<open>C3.\<close> Encoding and decoding are inverse on valid inputs: for each of the five entity
  types and each positive integer id (an exact integer of JavaScript, so at most
  \<open>MAX_SAFE_INTEGER\<close>), \<open>createJiraKey\<close> returns a key, and \<open>parseJiraKey\<close> of that key
  gives back exactly that type and that id.
\<close>

theorem decode_encode_roundtrip:
  assumes "t \<in> {''assignee'', ''status'', ''unit_model'', ''repair_order'', ''repair_unit''}"
    and "0 < n" and "n \<le> MAX_SAFE_INTEGER"
  shows "\<exists>p. map_of prefixMap t = Some p
           \<and> createJiraKey t n = Key (p @ ''-'' @ numberToString n)
           \<and> parseJiraKey (p @ ''-'' @ numberToString n) =
               Some \<lparr>key_type = Str t, key_id = n, key_prefix = p\<rparr>"
proof -
  obtain p where p: "map_of prefixMap t = Some p" "map_of typeMap p = Some t"
    using assms(1) by (auto simp: prefixMap_def typeMap_def)
  then have "p \<noteq> []" by (auto simp: prefixMap_def split: if_splits)
  then have "createJiraKey t n = Key (p @ ''-'' @ numberToString n)"
    using p(1) by (simp add: createJiraKey_def getProperty_def)
  moreover have "parseJiraKey (p @ ''-'' @ numberToString n) =
      Some \<lparr>key_type = Str t, key_id = n, key_prefix = p\<rparr>"
    using parseJiraKey_encoded [OF p(2)] assms(2) by simp
  ultimately show ?thesis using p(1) by blast
qed

theorem decode_encode_roundtrip_witness:
  "''repair_order'' \<in> {''assignee'', ''status'', ''unit_model'', ''repair_order'', ''repair_unit''}
   \<and> (0 :: int) < 123 \<and> 123 \<le> MAX_SAFE_INTEGER
   \<and> createJiraKey ''repair_order'' 123 = Key ''RO-123''
   \<and> parseJiraKey ''RO-123'' =
       Some \<lparr>key_type = Str ''repair_order'', key_id = 123, key_prefix = ''RO''\<rparr>"
proof -
  have "numberToString 123 = ''123''" by code_simp
  then show ?thesis
    using decode_encode_roundtrip [of "''repair_order''" 123]
    by (simp add: MAX_SAFE_INTEGER_def prefixMap_def)
qed

subsection \<open>What the decoder rejects and what it lets through\<close>

lemma parseJiraKey_segment_count:
  "length (split CHR ''-'' key) \<noteq> 2 \<Longrightarrow> parseJiraKey key = None"
  by (simp add: parseJiraKey_def)

lemma parseJiraKey_unknown_prefix:
  assumes "split CHR ''-'' key = [prefix, idStr]"
    and "prefix \<notin> fst ` set typeMap" and "prefix \<notin> set Object_prototype"
  shows "parseJiraKey key = None"
proof -
  have "map_of typeMap prefix = None"
    using assms(2) by (simp add: map_of_eq_None_iff)
  then show ?thesis
    using assms(1,3) by (simp add: parseJiraKey_def getProperty_def split: option.splits)
qed

lemma parseJiraKey_no_number:
  "split CHR ''-'' key = [prefix, idStr] \<Longrightarrow> parseInt idStr = None \<Longrightarrow>
   parseJiraKey key = None"
  by (simp add: parseJiraKey_def)

text \<open>
  \<^bold>\<open>C4.\<close> The claim is that every string not of the shape of two letters, a dash and digits
  decodes to the invalid result. The decoder returns \<open>null\<close> for a wrong number of
  segments, for an id segment without a leading number and for a prefix that no table
  knows (the three lemmas above), and it throws on no string. But \<open>parseInt\<close> stops at
  the first character that is not a digit, and the prefix is looked up as a property, so
  these two strings, which do not have the shape, decode to a key: \<open>RO-12abc\<close> to the
  repair order 12, and \<open>constructor-5\<close> to the id 5 with a function as its type.
\<close>

theorem parseJiraKey_accepts_misshapen_keys:
  "parseJiraKey ''RO-12abc'' =
     Some \<lparr>key_type = Str ''repair_order'', key_id = 12, key_prefix = ''RO''\<rparr>
   \<and> parseJiraKey ''constructor-5'' =
     Some \<lparr>key_type = Builtin ''constructor'', key_id = 5, key_prefix = ''constructor''\<rparr>"
  by (simp add: parseJiraKey_def parseInt_def isWhiteSpace_def isDigit_def digitsValue_def
      digitValue_def getProperty_def typeMap_def Object_prototype_def Let_def)

section \<open>Properties of the reconciliation\<close>

subsection \<open>Upsert\<close>

lemma findIndex_None: "findIndex P xs = None \<longleftrightarrow> (\<forall>x\<in>set xs. \<not> P x)"
  by (induction xs) auto

lemma findIndex_first:
  "\<forall>x\<in>set xs. \<not> P x \<Longrightarrow> P y \<Longrightarrow> findIndex P (xs @ y # ys) = Some (length xs)"
  by (induction xs) auto

lemma upsert_append:
  assumes "entity_id r \<notin> entity_id ` set xs"
  shows "upsert xs r = xs @ [r]"
proof -
  have "findIndex (\<lambda>ord. entity_id ord = entity_id r) xs = None"
    unfolding findIndex_None using assms by (metis imageI)
  then show ?thesis by (simp add: upsert_def)
qed

lemma upsert_replace:
  assumes "entity_id old = entity_id r" and "entity_id r \<notin> entity_id ` set xs"
  shows "upsert (xs @ old # ys) r = xs @ r # ys"
proof -
  have "findIndex (\<lambda>ord. entity_id ord = entity_id r) (xs @ old # ys) = Some (length xs)"
    using assms by (intro findIndex_first) (metis imageI, simp)
  then show ?thesis by (simp add: upsert_def)
qed

lemma upsert_cases:
  obtains (new) "entity_id r \<notin> entity_id ` set c" "upsert c r = c @ [r]"
  | (old) xs old ys where "c = xs @ old # ys" "entity_id old = entity_id r"
      "entity_id r \<notin> entity_id ` set xs" "upsert c r = xs @ r # ys"
proof (cases "entity_id r \<in> entity_id ` set c")
  case False
  then show ?thesis using new upsert_append by blast
next
  case True
  then have "\<exists>x\<in>set c. entity_id x = entity_id r" by auto
  then obtain xs x ys where c: "c = xs @ x # ys" "entity_id x = entity_id r"
      "\<forall>y\<in>set xs. entity_id y \<noteq> entity_id r"
    using split_list_first_prop [of c "\<lambda>x. entity_id x = entity_id r"] by blast
  then have "entity_id r \<notin> entity_id ` set xs" by auto
  with c show ?thesis using old upsert_replace by blast
qed

lemma foldl_upsert_last:
  fixes data :: "'a entity list"
  shows "distinct (map entity_id (foldl upsert [] data))
     \<and> entity_id ` set (foldl upsert [] data) = entity_id ` set data
     \<and> (\<forall>x\<in>set (foldl upsert [] data).
          x = last (filter (\<lambda>y. entity_id y = entity_id x) data))"
proof (induction data rule: rev_induct)
  case Nil
  then show ?case by simp
next
  case (snoc r data)
  let ?c = "foldl upsert [] data"
  have d: "distinct (map entity_id ?c)"
    and s: "entity_id ` set ?c = entity_id ` set data"
    and l: "\<And>x. x \<in> set ?c \<Longrightarrow> x = last (filter (\<lambda>y. entity_id y = entity_id x) data)"
    using snoc.IH by blast+
  have step: "foldl upsert [] (data @ [r]) = upsert ?c r" by simp
  show ?case
  proof (cases rule: upsert_cases [of r ?c])
    case new
    then show ?thesis using d s l unfolding step by auto
  next
    case (old xs old ys)
    have "entity_id ` set (xs @ r # ys) = entity_id ` set ?c"
      using old by auto
    moreover have "distinct (map entity_id (xs @ r # ys))"
      using d old by auto
    moreover have "x = last (filter (\<lambda>y. entity_id y = entity_id x) (data @ [r]))"
      if "x \<in> set (xs @ r # ys)" for x
    proof (cases "x = r")
      case True
      then show ?thesis by simp
    next
      case False
      then have x: "x \<in> set xs \<or> x \<in> set ys" using that by auto
      then have "x \<in> set ?c" using old by auto
      moreover have "entity_id x \<noteq> entity_id r"
      proof
        assume "entity_id x = entity_id r"
        then have "entity_id old \<in> entity_id ` set xs \<or> entity_id old \<in> entity_id ` set ys"
          using x old(2) by (metis imageI)
        then show False using d old(1) by auto
      qed
      ultimately show ?thesis using l by simp
    qed
    ultimately show ?thesis using s unfolding step old(4) by auto
  qed
qed

lemma reconcileAll_updates:
  "reconcileAll (map Update envs) c = foldl upsert c (concat envs)"
  by (induction envs arbitrary: c) (simp_all add: reconcileAll_def)

lemma map_id_upsert:
  "map entity_id (upsert c r) =
     (if entity_id r \<in> entity_id ` set c then map entity_id c else map entity_id c @ [entity_id r])"
proof (cases rule: upsert_cases [of r c])
  case new
  then show ?thesis by simp
next
  case (old xs old ys)
  then have "entity_id r \<in> entity_id ` set c" by (metis imageI in_set_conv_decomp)
  then show ?thesis using old by simp
qed

lemma foldl_upsert_order:
  "map entity_id (foldl upsert [] data) = rev (remdups (rev (map entity_id data)))"
proof (induction data rule: rev_induct)
  case Nil
  then show ?case by simp
next
  case (snoc r data)
  have "entity_id ` set (foldl upsert [] data) = set (map entity_id data)"
    using foldl_upsert_last [of data] by simp
  then show ?case using snoc.IH by (simp add: map_id_upsert)
qed

text \<open>
  \<^bold>\<open>C1.\<close> For every sequence of \<open>update\<close> messages applied in order to the empty collection,
  the result has one record for each id seen and no other, and each record is the last
  one the sequence supplied for its id. A message applies its records in array order and
  does nothing else: it is the fold of \<open>upsert\<close> over its records, an empty message leaves
  the collection as it is, and a sequence of messages is the fold over all their records.
  A record whose id the collection has replaces the record with that id where it stands,
  leaving every other element in its place, and a record with a new id is appended at the
  end, so the ids of the result stand in the order in which they were first seen.
\<close>

theorem update_sequence_last_wins:
  fixes envs :: "'a entity list list"
  shows "distinct (map entity_id (reconcileAll (map Update envs) []))
     \<and> entity_id ` set (reconcileAll (map Update envs) []) = entity_id ` set (concat envs)
     \<and> (\<forall>x\<in>set (reconcileAll (map Update envs) []).
          x = last (filter (\<lambda>y. entity_id y = entity_id x) (concat envs)))
     \<and> reconcile (Update (r # data)) coll = reconcile (Update data) (upsert coll r)
     \<and> (entity_id r \<notin> entity_id ` set coll \<longrightarrow> upsert coll r = coll @ [r])
     \<and> (entity_id old = entity_id r \<and> entity_id r \<notin> entity_id ` set xs \<longrightarrow>
          upsert (xs @ old # ys) r = xs @ r # ys)
     \<and> reconcile (Update []) coll = coll
     \<and> reconcile (Update data) coll = foldl upsert coll data
     \<and> reconcileAll (map Update envs) coll = foldl upsert coll (concat envs)
     \<and> (entity_id r \<notin> entity_id ` set coll \<longrightarrow> reconcile (Update [r]) coll = coll @ [r])
     \<and> (entity_id old = entity_id r \<and> entity_id r \<notin> entity_id ` set xs \<longrightarrow>
          reconcile (Update [r]) (xs @ old # ys) = xs @ r # ys)
     \<and> map entity_id (reconcileAll (map Update envs) [])
         = rev (remdups (rev (map entity_id (concat envs))))"
  using foldl_upsert_last [of "concat envs"] upsert_append [of r coll]
    upsert_replace [of old r xs ys] foldl_upsert_order [of "concat envs"]
  by (simp add: reconcileAll_updates)

theorem update_sequence_last_wins_witness:
  "reconcileAll (map Update
       [[\<lparr>entity_id = 7, entity_fields = ''a''\<rparr>, \<lparr>entity_id = 5, entity_fields = ''v1''\<rparr>],
        [\<lparr>entity_id = 5, entity_fields = ''v2''\<rparr>, \<lparr>entity_id = 3, entity_fields = ''b''\<rparr>]]) []
     = [\<lparr>entity_id = 7, entity_fields = ''a''\<rparr>, \<lparr>entity_id = 5, entity_fields = ''v2''\<rparr>,
        \<lparr>entity_id = 3, entity_fields = ''b''\<rparr>]
   \<and> last (filter (\<lambda>y. entity_id y = 5)
        (concat [[\<lparr>entity_id = 7, entity_fields = ''a''\<rparr>, \<lparr>entity_id = 5, entity_fields = ''v1''\<rparr>],
                 [\<lparr>entity_id = 5, entity_fields = ''v2''\<rparr>, \<lparr>entity_id = 3, entity_fields = ''b''\<rparr>]]))
     = \<lparr>entity_id = 5, entity_fields = ''v2''\<rparr>
   \<and> reconcile (Update [\<lparr>entity_id = 5, entity_fields = ''v2''\<rparr>])
        [\<lparr>entity_id = 7, entity_fields = ''a''\<rparr>]
     = [\<lparr>entity_id = 7, entity_fields = ''a''\<rparr>, \<lparr>entity_id = 5, entity_fields = ''v2''\<rparr>]
   \<and> reconcile (Update [\<lparr>entity_id = 5, entity_fields = ''v2''\<rparr>])
        ([\<lparr>entity_id = 7, entity_fields = ''a''\<rparr>] @ \<lparr>entity_id = 5, entity_fields = ''v1''\<rparr>
          # [\<lparr>entity_id = 3, entity_fields = ''b''\<rparr>])
     = [\<lparr>entity_id = 7, entity_fields = ''a''\<rparr>, \<lparr>entity_id = 5, entity_fields = ''v2''\<rparr>,
        \<lparr>entity_id = 3, entity_fields = ''b''\<rparr>]
   \<and> rev (remdups (rev [7, 5, 5, 3 :: int])) = [7, 5, 3]"
  using update_sequence_last_wins
    [of "[[\<lparr>entity_id = 7, entity_fields = ''a''\<rparr>, \<lparr>entity_id = 5, entity_fields = ''v1''\<rparr>],
          [\<lparr>entity_id = 5, entity_fields = ''v2''\<rparr>, \<lparr>entity_id = 3, entity_fields = ''b''\<rparr>]]"
        "\<lparr>entity_id = 5, entity_fields = ''v2''\<rparr>" "[]"
        "[\<lparr>entity_id = 7, entity_fields = ''a''\<rparr>]"
        "\<lparr>entity_id = 5, entity_fields = ''v1''\<rparr>"
        "[\<lparr>entity_id = 7, entity_fields = ''a''\<rparr>]"
        "[\<lparr>entity_id = 3, entity_fields = ''b''\<rparr>]"]
  by (simp add: reconcileAll_def upsert_def)

subsection \<open>Delete\<close>

lemma delete_characterisation:
  "reconcile (Delete keys) coll =
     filter (\<lambda>ord. \<forall>k\<in>set keys. getIdFromKey k \<noteq> Some (entity_id ord)) coll"
  by (auto simp: image_iff intro!: filter_cong)

lemma delete_skips_rejected_key:
  assumes "getIdFromKey k = None"
  shows "reconcile (Delete (ks @ k # ks')) coll = reconcile (Delete (ks @ ks')) coll"
  unfolding delete_characterisation using assms by (auto intro!: filter_cong)

lemma getIdFromKey_encoded:
  assumes "p \<in> {''AS'', ''ST'', ''UM'', ''RO'', ''RU''}" and "0 \<le> n"
  shows "getIdFromKey (p @ ''-'' @ numberToString n) = Some n"
proof -
  obtain t where "map_of typeMap p = Some t"
    using assms(1) by (auto simp: typeMap_def)
  then show ?thesis
    using parseJiraKey_encoded [of p t n] assms(2) by (simp add: getIdFromKey_def)
qed

text \<open>
  \<^bold>\<open>C2.\<close> A \<open>delete\<close> message removes the members whose id some key of the message decodes
  to and keeps the others in their order, and a key that decodes to \<open>null\<close> removes
  nothing and does not stop the other keys from being processed (the two lemmas on
  \<open>Delete\<close> above). The claim says more: that every malformed key is such a key. The
  decoder lets some malformed keys through, and then the record goes: the key
  \<open>RO-12abc\<close> removes the record with id 12.
\<close>

theorem delete_on_misshapen_key:
  "reconcile (Delete [''RO-12abc''])
     [\<lparr>entity_id = 12, entity_fields = ''Batch A''\<rparr>, \<lparr>entity_id = 13, entity_fields = ''Batch B''\<rparr>]
   = [\<lparr>entity_id = 13, entity_fields = ''Batch B''\<rparr>]"
  by (simp add: getIdFromKey_def parseJiraKey_def parseInt_def isWhiteSpace_def isDigit_def
      digitsValue_def digitValue_def getProperty_def typeMap_def Let_def)

text \<open>
  \<^bold>\<open>C10.\<close> A \<open>delete\<close> message matches on the decoded id alone: a key with any of the five
  prefixes and the (exact, non-negative) id \<open>n\<close> decodes to \<open>n\<close> whatever the prefix, a
  message with that key alone removes exactly the members with id \<open>n\<close>, and no member with
  id \<open>n\<close> is left after a message that contains the key. So \<open>ST-7\<close> removes the order 7.
\<close>

theorem delete_matches_id_only:
  assumes "p \<in> {''AS'', ''ST'', ''UM'', ''RO'', ''RU''}" and "0 \<le> n" and "n \<le> MAX_SAFE_INTEGER"
  shows "getIdFromKey (p @ ''-'' @ numberToString n) = Some n
     \<and> reconcile (Delete [p @ ''-'' @ numberToString n]) coll
         = filter (\<lambda>ord. entity_id ord \<noteq> n) coll
     \<and> (\<forall>ord\<in>set (reconcile (Delete (ks @ [p @ ''-'' @ numberToString n] @ ks')) coll).
          entity_id ord \<noteq> n)"
proof -
  have k: "getIdFromKey (p @ ''-'' @ numberToString n) = Some n"
    using assms(1,2) by (rule getIdFromKey_encoded)
  have "reconcile (Delete [p @ ''-'' @ numberToString n]) coll
         = filter (\<lambda>ord. entity_id ord \<noteq> n) coll"
    unfolding delete_characterisation using k by (auto intro!: filter_cong)
  moreover have "\<forall>ord\<in>set (reconcile (Delete (ks @ [p @ ''-'' @ numberToString n] @ ks')) coll).
          entity_id ord \<noteq> n"
    unfolding delete_characterisation using k by auto
  ultimately show ?thesis using k by blast
qed

theorem delete_matches_id_only_witness:
  "''ST'' \<in> {''AS'', ''ST'', ''UM'', ''RO'', ''RU''} \<and> (0 :: int) \<le> 7 \<and> 7 \<le> MAX_SAFE_INTEGER
   \<and> getIdFromKey ''ST-7'' = Some 7
   \<and> reconcile (Delete [''ST-7''])
        [\<lparr>entity_id = 3, entity_fields = ''Batch A''\<rparr>, \<lparr>entity_id = 7, entity_fields = ''Batch B''\<rparr>]
      = [\<lparr>entity_id = 3, entity_fields = ''Batch A''\<rparr>]
   \<and> reconcile (Delete ([''RO-3''] @ [''ST-7''] @ []))
        [\<lparr>entity_id = 3, entity_fields = ''Batch A''\<rparr>, \<lparr>entity_id = 7, entity_fields = ''Batch B''\<rparr>,
         \<lparr>entity_id = 8, entity_fields = ''Batch C''\<rparr>]
      = [\<lparr>entity_id = 8, entity_fields = ''Batch C''\<rparr>]"
  using delete_matches_id_only [of "''ST''" 7
      "[\<lparr>entity_id = 3, entity_fields = ''Batch A''\<rparr>, \<lparr>entity_id = 7, entity_fields = ''Batch B''\<rparr>]"
      "[''RO-3'']" "[]"]
  by (simp add: MAX_SAFE_INTEGER_def numberToString_def decimal.simps
      getIdFromKey_def parseJiraKey_def parseInt_def isWhiteSpace_def isDigit_def
      digitsValue_def digitValue_def getProperty_def typeMap_def Let_def digitChar_def)

section \<open>Properties of the connection manager\<close>

lemmas service_defs =
  connect_def onopen_def onerror_def onclose_def attemptReconnect_def setReadyState_def
  settle_def resubscribe_def subscribeToChannels_def send_def wsSend_def subscribe_def
  unsubscribe_def add_def close_def wsClose_def sendUpdate_def sendDelete_def

subsection \<open>Runs\<close>

lemma run_append:
  "run (es @ es') s = (case run es s of None \<Rightarrow> None | Some s' \<Rightarrow> run es' s')"
  by (induction es arbitrary: s) (auto split: option.splits)

lemma run_retrying: "run retrying newService = Some retryingState"
  by (simp add: retrying_def retryingState_def newService_def service_defs)

lemma run_racingConnect: "run racingConnect newService = Some racedState"
  unfolding racingConnect_def run_append run_retrying
  by (simp add: retryingState_def racedState_def service_defs)

lemma run_open: "run [AppConnect, Opens 0] newService = Some openState"
  by (simp add: openState_def newService_def service_defs)

lemma first_failure: "run (failures 0) newService = Some (failedState 0)"
  by (simp add: failedState_def newService_def service_defs)

lemma next_failure:
  assumes "Suc n < 10"
  shows "run [TimerFires n, Fails (Suc n)] (failedState n) = Some (failedState (Suc n))"
  using assms
  by (simp add: failedState_def service_defs nth_append list_update_append
      replicate_append_same)

lemma failures_state: "n < 10 \<Longrightarrow> run (failures n) newService = Some (failedState n)"
proof (induction n)
  case 0
  show ?case by (rule first_failure)
next
  case (Suc n)
  then show ?case by (simp add: run_append next_failure del: run.simps)
qed

lemma last_failure: "run [TimerFires 9, Fails 10] (failedState 9) = Some stoppedState"
proof -
  have r: "replicate 10 t = t # replicate 9 t" for t :: transport
    using replicate.simps(2) [of 9 t] by simp
  show ?thesis
    by (simp add: failedState_def stoppedState_def service_defs nth_append list_update_append
        replicate_append_same r)
qed

lemma failures_stopped: "run (failures 10) newService = Some stoppedState"
proof -
  have "failures 10 = failures 9 @ [TimerFires 9, Fails 10]"
    using failures.simps(2) [of 9] by simp
  then show ?thesis
    by (simp add: run_append failures_state last_failure del: run.simps failures.simps)
qed

lemma exhausted_stoppedState: "exhausted stoppedState"
  by (auto simp: exhausted_def stoppedState_def)

subsection \<open>Fields a method leaves alone\<close>

lemma send_fields:
  "subscribers (state_of (send m s)) = subscribers s
   \<and> transports (state_of (send m s)) = transports s
   \<and> ws (state_of (send m s)) = ws s
   \<and> timeouts (state_of (send m s)) = timeouts s
   \<and> reconnectAttempts (state_of (send m s)) = reconnectAttempts s
   \<and> maxReconnectAttempts (state_of (send m s)) = maxReconnectAttempts s
   \<and> reconnectDelay (state_of (send m s)) = reconnectDelay s"
  by (simp add: send_def wsSend_def split: option.splits readyState.splits)

lemma subscribe_fields:
  "transports (state_of (subscribe ch cb s)) = transports s
   \<and> ws (state_of (subscribe ch cb s)) = ws s
   \<and> timeouts (state_of (subscribe ch cb s)) = timeouts s
   \<and> reconnectAttempts (state_of (subscribe ch cb s)) = reconnectAttempts s"
  by (simp add: subscribe_def subscribeToChannels_def send_def wsSend_def
      split: option.splits readyState.splits)

lemma subscribe_distinct:
  "distinct (map fst (subscribers s)) \<Longrightarrow>
   distinct (map fst (subscribers (state_of (subscribe ch cb s))))"
  by (simp add: subscribe_def subscribeToChannels_def send_def wsSend_def distinct_update
      split: option.splits readyState.splits)

lemma unsubscribe_distinct:
  "distinct (map fst (subscribers s)) \<Longrightarrow>
   distinct (map fst (subscribers (unsubscribe ch cb s)))"
  by (simp add: unsubscribe_def Let_def distinct_update distinct_delete split: option.splits)

lemma onopen_fields:
  "reconnectAttempts (onopen k s) = 0
   \<and> timeouts (onopen k s) = timeouts s
   \<and> maxReconnectAttempts (onopen k s) = maxReconnectAttempts s
   \<and> reconnectDelay (onopen k s) = reconnectDelay s
   \<and> length (transports (onopen k s)) = length (transports s)
   \<and> (j \<noteq> k \<longrightarrow> transports (onopen k s) ! j = transports s ! j)"
  by (simp add: onopen_def settle_def resubscribe_def subscribeToChannels_def send_fields
      Let_def split: caller.splits)

text \<open>
  \<^bold>\<open>C5.\<close> The claim is that a \<open>connect()\<close> call made while an earlier attempt is in flight
  opens no second transport. \<open>connect()\<close> has no such guard: two calls in a row from the
  constructor's state leave two transports, both connecting, and \<open>this.ws\<close> is the second.
\<close>

theorem second_connect_opens_second_transport:
  "transports (connect Application (connect Application newService)) =
     [\<lparr>readyState = CONNECTING, promise = Pending, caller = Application\<rparr>,
      \<lparr>readyState = CONNECTING, promise = Pending, caller = Application\<rparr>]
   \<and> ws (connect Application (connect Application newService)) = Some 1"
  by (simp add: connect_def newService_def)

text \<open>
  \<^bold>\<open>C5, as the code has it.\<close> Every \<open>connect()\<close> call opens a new transport, whether or not
  an earlier attempt is in flight, and makes it the current transport of the manager. The
  promise of a call is settled by the events of the transport that call created: the
  \<open>open\<close> event of transport \<open>k\<close> fulfils the pending promise of transport \<open>k\<close>, its
  \<open>error\<close> event rejects it, and both leave the promise of any other transport as it
  was.
\<close>

theorem connect_opens_new_transport:
  "transports (connect who s) =
     transports s @ [\<lparr>readyState = CONNECTING, promise = Pending, caller = who\<rparr>]
   \<and> ws (connect who s) = Some (length (transports s))
   \<and> (j \<noteq> k \<longrightarrow>
        promise (transports (onopen k s) ! j) = promise (transports s ! j)
        \<and> promise (transports (onerror k s) ! j) = promise (transports s ! j))
   \<and> (k < length (transports s) \<and> promise (transports s ! k) = Pending \<longrightarrow>
        promise (transports (onopen k s) ! k) = Fulfilled
        \<and> promise (transports (onerror k s) ! k) = Rejected)"
proof -
  have "promise (transports (onopen k s) ! k) = Fulfilled"
    if "k < length (transports s)" "promise (transports s ! k) = Pending"
    using that
    by (simp add: onopen_def settle_def resubscribe_def subscribeToChannels_def send_fields
        Let_def split: caller.splits)
  then show ?thesis
    using onopen_fields [of k s j] by (simp add: connect_def onerror_def settle_def)
qed

theorem connect_opens_new_transport_witness:
  "transports (connect Application (connect Application newService)) =
     transports (connect Application newService)
       @ [\<lparr>readyState = CONNECTING, promise = Pending, caller = Application\<rparr>]
   \<and> ws (connect Application (connect Application newService)) = Some 1
   \<and> (0 :: nat) \<noteq> 1
   \<and> promise (transports (onopen 1 (connect Application (connect Application newService))) ! 0)
       = Pending
   \<and> promise (transports (onerror 1 (connect Application (connect Application newService))) ! 0)
       = Pending
   \<and> promise (transports (connect Application (connect Application newService)) ! 1) = Pending
   \<and> promise (transports (onopen 1 (connect Application (connect Application newService))) ! 1)
       = Fulfilled
   \<and> promise (transports (onerror 1 (connect Application (connect Application newService))) ! 1)
       = Rejected"
  using connect_opens_new_transport [of Application "connect Application newService" 0 1]
    connect_opens_new_transport [of Application "connect Application (connect Application newService)" 0 1]
  by (simp add: connect_def newService_def)

subsection \<open>Backoff\<close>

lemma attemptReconnect_below_ceiling:
  assumes "reconnectAttempts s < maxReconnectAttempts s"
  shows "reconnectAttempts (attemptReconnect s) = reconnectAttempts s + 1
     \<and> timeouts (attemptReconnect s) =
         timeouts s @ [(reconnectDelay s * 2 ^ (reconnectAttempts (attemptReconnect s) - 1), False)]"
  using assms by (simp add: attemptReconnect_def Let_def)

lemma failedState_delays:
  "map fst (timeouts (failedState n)) = map (\<lambda>m. 1000 * 2 ^ (m - 1)) [1..<Suc (Suc n)]"
proof -
  let ?f = "\<lambda>m :: nat. 1000 * 2 ^ (m - 1) :: nat"
  have "map ?f [1..<Suc (Suc n)] = map ?f (map Suc [0..<Suc n])"
    by (simp only: map_Suc_upt One_nat_def)
  also have "\<dots> = map (\<lambda>i. ?f (Suc i)) [0..<Suc n]"
    by (simp only: map_map comp_def)
  also have "\<dots> = map (\<lambda>i. 1000 * 2 ^ i) [0..<Suc n]"
    by simp
  finally show ?thesis by (simp add: failedState_def comp_def)
qed

lemma failedState_pending:
  "timeouts (failedState n) ! n = (1000 * 2 ^ n, False)"
  by (simp add: failedState_def nth_append)

text \<open>
  \<^bold>\<open>C6.\<close> The delay scheduled before reconnection attempt \<open>n\<close> is
  \<open>reconnectDelay * 2^(n-1)\<close>, where \<open>n\<close> is the attempt counter after its increment, and
  \<open>reconnectDelay\<close> is 1000: in a run of consecutive failures from the constructor's state
  the delays before attempts 1 to \<open>n\<close> are \<open>1000 * 2^(m-1)\<close> for \<open>m\<close> from 1 to \<open>n\<close>, the
  last one pending, for every \<open>n\<close> up to the ceiling of 10; for attempts 1 to 5 they are
  1000, 2000, 4000, 8000 and 16000.
\<close>

theorem backoff_delays:
  "(reconnectAttempts s < maxReconnectAttempts s \<longrightarrow>
      reconnectAttempts (attemptReconnect s) = reconnectAttempts s + 1
      \<and> timeouts (attemptReconnect s) =
          timeouts s @ [(reconnectDelay s * 2 ^ (reconnectAttempts (attemptReconnect s) - 1), False)])
   \<and> (1 \<le> n \<and> n \<le> 10 \<longrightarrow>
        (\<exists>s'. run (failures (n - 1)) newService = Some s'
           \<and> map fst (timeouts s') = map (\<lambda>m. 1000 * 2 ^ (m - 1)) [1..<Suc n]
           \<and> timeouts s' ! (n - 1) = (1000 * 2 ^ (n - 1), False)))
   \<and> (\<exists>s'. run (failures 4) newService = Some s'
         \<and> map fst (timeouts s') = [1000, 2000, 4000, 8000, 16000])"
proof (intro conjI impI)
  assume "reconnectAttempts s < maxReconnectAttempts s"
  then show "reconnectAttempts (attemptReconnect s) = reconnectAttempts s + 1"
    and "timeouts (attemptReconnect s) =
          timeouts s @ [(reconnectDelay s * 2 ^ (reconnectAttempts (attemptReconnect s) - 1), False)]"
    using attemptReconnect_below_ceiling by blast+
next
  assume n: "1 \<le> n \<and> n \<le> 10"
  then obtain m where m: "n = Suc m" "m < 10" by (cases n) auto
  have "run (failures m) newService = Some (failedState m)"
    using m(2) by (rule failures_state)
  then show "\<exists>s'. run (failures (n - 1)) newService = Some s'
           \<and> map fst (timeouts s') = map (\<lambda>m. 1000 * 2 ^ (m - 1)) [1..<Suc n]
           \<and> timeouts s' ! (n - 1) = (1000 * 2 ^ (n - 1), False)"
    using failedState_delays [of m] failedState_pending [of m] by (simp add: m(1))
next
  have "run (failures 4) newService = Some (failedState 4)"
    by (rule failures_state) simp
  moreover have "map fst (timeouts (failedState 4)) = [1000, 2000, 4000, 8000, 16000]"
    by (simp add: failedState_def upt_conv_Cons)
  ultimately show "\<exists>s'. run (failures 4) newService = Some s'
         \<and> map fst (timeouts s') = [1000, 2000, 4000, 8000, 16000]"
    by simp
qed

theorem backoff_delays_witness:
  "reconnectAttempts newService < maxReconnectAttempts newService
   \<and> reconnectAttempts (attemptReconnect newService) = 1
   \<and> timeouts (attemptReconnect newService) = [(1000, False)]
   \<and> (1 :: nat) \<le> 3 \<and> (3 :: nat) \<le> 10
   \<and> (\<exists>s'. run (failures (3 - 1)) newService = Some s'
         \<and> map fst (timeouts s') = [1000, 2000, 4000]
         \<and> timeouts s' ! (3 - 1) = (4000, False))"
proof -
  have "[1..<Suc 3] = [1, 2, 3 :: nat]" by (simp add: upt_conv_Cons)
  then show ?thesis
    using backoff_delays [of newService 3] by (simp add: newService_def)
qed

subsection \<open>The ceiling\<close>

lemma attemptReconnect_ceiling:
  "maxReconnectAttempts s \<le> reconnectAttempts s \<Longrightarrow> attemptReconnect s = s"
  by (simp add: attemptReconnect_def)

lemma exhausted_step:
  assumes "exhausted s" and "e \<noteq> AppConnect" and "step e s = Some s'"
  shows "exhausted s' \<and> timeouts s' = timeouts s"
proof (cases e)
  case AppConnect
  then show ?thesis using assms by simp
next
  case (AppSubscribe ch cb)
  then show ?thesis using assms
    by (auto simp: exhausted_def subscribe_def subscribeToChannels_def send_def wsSend_def
        split: option.splits if_splits readyState.splits)
next
  case (AppUnsubscribe ch cb)
  then show ?thesis using assms
    by (auto simp: exhausted_def unsubscribe_def Let_def split: option.splits if_splits)
next
  case (AppSendUpdate ch d)
  then show ?thesis using assms send_fields [of "UpdateFrame ch d" s]
    by (auto simp: exhausted_def sendUpdate_def)
next
  case (AppSendDelete ch ks)
  then show ?thesis using assms send_fields [of "DeleteFrame ch ks" s]
    by (auto simp: exhausted_def sendDelete_def)
next
  case AppClose
  then show ?thesis using assms
    by (auto simp: exhausted_def close_def wsClose_def setReadyState_def
        split: option.splits if_splits dest!: set_update_subset_insert [THEN subsetD])
next
  case (Opens k)
  then show ?thesis using assms
    by (auto simp: exhausted_def split: if_splits)
next
  case (Message k m)
  then show ?thesis using assms
    by (cases m) (auto simp: exhausted_def split: if_splits)
next
  case (Fails k)
  then show ?thesis using assms
    by (auto simp: exhausted_def onclose_def onerror_def settle_def setReadyState_def
        attemptReconnect_def split: if_splits dest!: set_update_subset_insert [THEN subsetD])
next
  case (Closes k)
  then show ?thesis using assms
    by (auto simp: exhausted_def onclose_def setReadyState_def
        attemptReconnect_def split: if_splits dest!: set_update_subset_insert [THEN subsetD])
next
  case (TimerFires i)
  then show ?thesis using assms
    by (auto simp: exhausted_def split: if_splits)
qed

lemma exhausted_run:
  assumes "exhausted s" and "AppConnect \<notin> set es" and "run es s = Some s'"
  shows "exhausted s' \<and> timeouts s' = timeouts s"
  using assms
proof (induction es arbitrary: s)
  case Nil
  then show ?case by simp
next
  case (Cons e es)
  then obtain s1 where s1: "step e s = Some s1" "run es s1 = Some s'"
    by (auto split: option.splits)
  have "e \<noteq> AppConnect" "AppConnect \<notin> set es" using Cons.prems(2) by auto
  then show ?case
    using exhausted_step [OF Cons.prems(1) _ s1(1)] Cons.IH [OF _ _ s1(2)] by auto
qed

lemma success_restarts:
  assumes "step (Opens k) s = Some s'"
  shows "reconnectAttempts s' = 0
     \<and> (0 < maxReconnectAttempts s \<longrightarrow>
          timeouts (onclose s') = timeouts s' @ [(reconnectDelay s, False)])"
proof -
  have s': "s' = onopen k (setReadyState k OPEN s)"
    using assms by (auto split: if_splits)
  have "reconnectAttempts s' = 0" "maxReconnectAttempts s' = maxReconnectAttempts s"
    "reconnectDelay s' = reconnectDelay s"
    unfolding s' using onopen_fields [of k "setReadyState k OPEN s"]
    by (simp_all add: setReadyState_def)
  then show ?thesis by (simp add: onclose_def attemptReconnect_def)
qed

text \<open>
  \<^bold>\<open>C7.\<close> At the ceiling \<open>attemptReconnect\<close> schedules nothing. In a run of consecutive
  failures from the constructor's state, once the tenth attempt has failed ten timers
  have been set, all have fired, and no eleventh can fire. From a state where retrying
  has stopped, no sequence of events without a \<open>connect()\<close> call from the application
  sets a timer, so retrying resumes only through such a call. Every \<open>open\<close> event sets the
  attempt counter to zero, so the failure after a success is followed by the first delay
  again.
\<close>

theorem retry_stops_at_ceiling:
  "(maxReconnectAttempts s \<le> reconnectAttempts s \<longrightarrow> attemptReconnect s = s)
   \<and> run (failures 10) newService = Some stoppedState
   \<and> exhausted stoppedState
   \<and> length (timeouts stoppedState) = 10
   \<and> step (TimerFires i) stoppedState = None
   \<and> (exhausted s \<and> AppConnect \<notin> set es \<and> run es s = Some s1 \<longrightarrow>
        exhausted s1 \<and> timeouts s1 = timeouts s)
   \<and> (step (Opens k) s = Some s2 \<longrightarrow>
        reconnectAttempts s2 = 0
        \<and> (0 < maxReconnectAttempts s \<longrightarrow>
             timeouts (onclose s2) = timeouts s2 @ [(reconnectDelay s, False)]))"
proof -
  have "step (TimerFires i) stoppedState = None"
    by (auto simp: stoppedState_def nth_append nth_Cons split: nat.splits)
  moreover have "length (timeouts stoppedState) = 10"
    by (simp add: stoppedState_def)
  ultimately show ?thesis
    using attemptReconnect_ceiling [of s] failures_stopped exhausted_stoppedState
      exhausted_run [of s es s1] success_restarts [of k s s2]
    by blast
qed

theorem retry_stops_at_ceiling_witness:
  "maxReconnectAttempts stoppedState \<le> reconnectAttempts stoppedState
   \<and> attemptReconnect stoppedState = stoppedState
   \<and> exhausted stoppedState
   \<and> AppConnect \<notin> set [AppSubscribe ''main:orders'' 0, AppUnsubscribe ''main:orders'' 0]
   \<and> run [AppSubscribe ''main:orders'' 0, AppUnsubscribe ''main:orders'' 0] stoppedState
       = Some stoppedState
   \<and> step (Opens 1) retryingState = Some reopenedState
   \<and> reconnectAttempts reopenedState = 0
   \<and> 0 < maxReconnectAttempts retryingState
   \<and> timeouts (onclose reopenedState) = timeouts reopenedState @ [(1000, False)]"
proof -
  have r: "run [AppSubscribe ''main:orders'' 0, AppUnsubscribe ''main:orders'' 0] stoppedState
       = Some stoppedState"
    by (simp add: stoppedState_def service_defs)
  have o: "step (Opens 1) retryingState = Some reopenedState"
    by (simp add: retryingState_def reopenedState_def service_defs Let_def)
  show ?thesis
    using retry_stops_at_ceiling
      [where s = stoppedState and es = "[AppSubscribe ''main:orders'' 0, AppUnsubscribe ''main:orders'' 0]"
         and ?s1.0 = stoppedState]
      retry_stops_at_ceiling
      [where s = retryingState and k = 1 and ?s2.0 = reopenedState] r o
    by (simp add: stoppedState_def retryingState_def)
qed

subsection \<open>States the service can reach\<close>

lemma wellformed_newService: "wellformed newService"
  by (simp add: wellformed_def newService_def)

lemma update_transport_inv:
  assumes "\<forall>t\<in>set ts. readyState t = CONNECTING \<longrightarrow> promise t = Pending"
    and "readyState t' \<noteq> CONNECTING"
  shows "\<forall>t\<in>set (ts[k := t']). readyState t = CONNECTING \<longrightarrow> promise t = Pending"
  using assms set_update_subset_insert [of ts k t'] by auto

lemma wellformed_transport_update:
  assumes "subscribers s' = subscribers s \<and> ws s' = ws s \<and>
    (\<exists>t'. transports s' = (transports s)[k := t'] \<and> readyState t' \<noteq> CONNECTING)"
    and "wellformed s"
  shows "wellformed s'"
proof -
  obtain t' where t': "transports s' = (transports s)[k := t']" "readyState t' \<noteq> CONNECTING"
    using assms(1) by blast
  have "\<forall>t\<in>set (transports s'). readyState t = CONNECTING \<longrightarrow> promise t = Pending"
    unfolding t'(1) using assms(2) t'(2) by (intro update_transport_inv) (auto simp: wellformed_def)
  moreover have "length (transports s') = length (transports s)" by (simp add: t'(1))
  ultimately show ?thesis using assms by (auto simp: wellformed_def split: option.splits)
qed

lemma wellformed_step:
  assumes "wellformed s" and "step e s = Some s'"
  shows "wellformed s'"
proof (cases e)
  case AppConnect
  then show ?thesis using assms by (auto simp: wellformed_def connect_def)
next
  case (AppSubscribe ch cb)
  then show ?thesis using assms
    by (auto simp: wellformed_def subscribe_fields subscribe_distinct split: option.splits)
next
  case (AppUnsubscribe ch cb)
  then have "transports s' = transports s" "ws s' = ws s"
    using assms(2) by (auto simp: unsubscribe_def Let_def split: option.splits)
  then show ?thesis using assms AppUnsubscribe
    by (auto simp: wellformed_def unsubscribe_distinct split: option.splits)
next
  case (AppSendUpdate ch d)
  then show ?thesis using assms send_fields [of "UpdateFrame ch d" s]
    by (auto simp: wellformed_def sendUpdate_def split: option.splits)
next
  case (AppSendDelete ch ks)
  then show ?thesis using assms send_fields [of "DeleteFrame ch ks" s]
    by (auto simp: wellformed_def sendDelete_def split: option.splits)
next
  case AppClose
  then show ?thesis using assms
    by (auto simp: wellformed_def close_def wsClose_def setReadyState_def
        split: option.splits if_splits dest!: set_update_subset_insert [THEN subsetD])
next
  case (Opens k)
  then have k: "k < length (transports s)" "readyState (transports s ! k) = CONNECTING"
    and s': "s' = onopen k (setReadyState k OPEN s)"
    using assms(2) by (auto split: if_splits)
  have "subscribers s' = subscribers s \<and> ws s' = ws s \<and>
    (\<exists>t'. transports s' = (transports s)[k := t'] \<and> readyState t' \<noteq> CONNECTING)"
    unfolding s' using k
    by (auto simp: onopen_def setReadyState_def settle_def resubscribe_def Let_def
        subscribeToChannels_def send_fields split: caller.splits)
  then show ?thesis using assms(1) by (rule wellformed_transport_update)
next
  case (Message k m)
  then show ?thesis using assms
    by (cases m) (auto simp: wellformed_def split: if_splits option.splits)
next
  case (Fails k)
  then have k: "k < length (transports s)"
    and s': "s' = onclose (onerror k (setReadyState k CLOSED s))"
    using assms(2) by (auto split: if_splits)
  have "subscribers s' = subscribers s \<and> ws s' = ws s \<and>
    (\<exists>t'. transports s' = (transports s)[k := t'] \<and> readyState t' \<noteq> CONNECTING)"
    unfolding s' using k
    by (auto simp: onclose_def onerror_def attemptReconnect_def setReadyState_def settle_def Let_def)
  then show ?thesis using assms(1) by (rule wellformed_transport_update)
next
  case (Closes k)
  then have k: "k < length (transports s)"
    and s': "s' = onclose (setReadyState k CLOSED s)"
    using assms(2) by (auto split: if_splits)
  have "subscribers s' = subscribers s \<and> ws s' = ws s \<and>
    (\<exists>t'. transports s' = (transports s)[k := t'] \<and> readyState t' \<noteq> CONNECTING)"
    unfolding s' using k
    by (auto simp: onclose_def attemptReconnect_def setReadyState_def Let_def)
  then show ?thesis using assms(1) by (rule wellformed_transport_update)
next
  case (TimerFires i)
  then show ?thesis using assms
    by (auto simp: wellformed_def connect_def split: if_splits)
qed

lemma wellformed_run:
  "wellformed s \<Longrightarrow> run es s = Some s' \<Longrightarrow> wellformed s'"
proof (induction es arbitrary: s)
  case Nil
  then show ?case by simp
next
  case (Cons e es)
  then show ?case by (auto split: option.splits dest: wellformed_step)
qed

subsection \<open>Re-subscription after a reconnect\<close>

text \<open>
  \<^bold>\<open>C8.\<close> Every successful automatic reconnect is to be followed by one \<open>subscribe\<close>
  message with every channel of the registry, and the \<open>then\<close> callback of
  \<open>attemptReconnect\<close> is written to do that (its comment: re-subscribe to all channels
  after reconnect). The message goes through \<open>send\<close>, so to \<open>this.ws\<close>. When the
  application has called \<open>connect()\<close> since the attempt started, \<open>this.ws\<close> is that newer
  transport, still connecting, whose \<open>send\<close> throws: in the run \<open>racingConnect\<close> attempt 1
  succeeds (transport 1 is open, its promise fulfilled), the registry holds
  \<open>main:orders\<close>, and the only frame ever sent is the subscription made on transport 0
  before the disconnect. The re-subscription is lost.
\<close>

theorem resubscription_lost_in_race:
  "run racingConnect newService = Some racedState
   \<and> transports racedState ! 1
       = \<lparr>readyState = OPEN, promise = Fulfilled, caller = ReconnectTimer\<rparr>
   \<and> map fst (subscribers racedState) = [''main:orders'']
   \<and> wire racedState = [(0, Subscribe [''main:orders''])]"
  using run_racingConnect by (simp add: racedState_def)

text \<open>Where the re-subscription does happen: in every state the service can reach, when
  the transport of an automatic attempt opens while it is the current transport of the
  manager, the manager sends over it exactly one \<open>subscribe\<close> message whose channel list
  is the list of the channels of the registry, each once, if the registry is not empty,
  and nothing if it is empty.\<close>

lemma reconnect_resubscribes_once:
  assumes "run es newService = Some s" and "ws s = Some k"
    and "readyState (transports s ! k) = CONNECTING"
    and "caller (transports s ! k) = ReconnectTimer"
  shows "\<exists>s'. step (Opens k) s = Some s' \<and> subscribers s' = subscribers s \<and>
           wire s' = wire s @ (if subscribers s = [] then []
                               else [(k, Subscribe (map fst (subscribers s)))]) \<and>
           distinct (map fst (subscribers s))"
proof -
  have wf: "wellformed s" using wellformed_run [OF wellformed_newService assms(1)] .
  then have k: "k < length (transports s)" using assms(2) by (simp add: wellformed_def)
  then have "transports s ! k \<in> set (transports s)" by simp
  then have p: "promise (transports s ! k) = Pending"
    using wf assms(3) by (simp add: wellformed_def)
  show ?thesis using k p assms(2-4) wf
    by (simp add: onopen_def setReadyState_def settle_def resubscribe_def Let_def
        subscribeToChannels_def send_def wsSend_def wellformed_def)
qed

lemma reconnect_resubscribes_once_example:
  "\<exists>s'. step (Opens 1) retryingState = Some s' \<and> subscribers s' = [(''main:orders'', [0])]
         \<and> wire s' = [(0, Subscribe [''main:orders'']), (1, Subscribe [''main:orders''])]"
  using reconnect_resubscribes_once [OF run_retrying, of 1]
  by (simp add: retryingState_def)

subsection \<open>The registry\<close>

lemma noEmptySets_entry:
  "noEmptySets s \<Longrightarrow> (listeners s channel = []) = (map_of (subscribers s) channel = None)"
  by (auto simp: noEmptySets_def listeners_def split: option.splits dest!: map_of_SomeD)

lemma set_update_subset: "set (AList.update k v al) \<subseteq> insert (k, v) (set al)"
  by (induction al) auto

lemma set_delete_subset: "set (AList.delete k al) \<subseteq> set al"
  by (auto simp: AList.delete_eq)

lemma noEmptySets_update:
  assumes "\<forall>entry\<in>set al. snd entry \<noteq> []" and "v \<noteq> []"
  shows "\<forall>entry\<in>set (AList.update k v al). snd entry \<noteq> []"
  using assms set_update_subset [of k v al] by auto

lemma add_not_Nil: "add x xs \<noteq> []"
  by (auto simp: add_def)

lemma subscribe_returns:
  assumes "\<not> (connected s \<and> map_of (subscribers s) channel = None
              \<and> (\<exists>k. ws s = Some k \<and> k < length (transports s)
                       \<and> readyState (transports s ! k) = CONNECTING))"
  shows "\<exists>s'. subscribe channel callback s = Returns s'
     \<and> subscribers s' = AList.update channel (add callback (listeners s channel)) (subscribers s)
     \<and> wire s' = wire s @
          (case ws s of
             Some k \<Rightarrow>
               if connected s \<and> map_of (subscribers s) channel = None
                  \<and> k < length (transports s) \<and> readyState (transports s ! k) = OPEN
               then [(k, Subscribe [channel])] else []
           | None \<Rightarrow> [])"
  using assms
  by (auto simp: subscribe_def subscribeToChannels_def send_def wsSend_def listeners_def
      update_conv' split: option.splits readyState.splits)

lemma subscribe_throws:
  assumes "connected s" and "map_of (subscribers s) channel = None"
    and "ws s = Some k" and "k < length (transports s)"
    and "readyState (transports s ! k) = CONNECTING"
  shows "subscribe channel callback s =
           Throws (s\<lparr>subscribers := AList.update channel [] (subscribers s)\<rparr>)"
  using assms by (simp add: subscribe_def subscribeToChannels_def send_def wsSend_def)

lemma run_subscribeWhileConnecting:
  "run (subscribeWhileConnecting @ [Opens 1]) newService = Some residueState
   \<and> subscribe ''main:orders'' 2 residueState =
       Returns (residueState\<lparr>subscribers := [(''main:orders'', [2])]\<rparr>)"
  by (simp add: subscribeWhileConnecting_def residueState_def newService_def service_defs)

lemma noEmptySets_unsubscribe:
  assumes "noEmptySets s"
  shows "noEmptySets (unsubscribe channel callback s)"
  using assms noEmptySets_update [of "subscribers s" _ channel]
    set_delete_subset [of channel "subscribers s"]
  by (auto simp: unsubscribe_def noEmptySets_def Let_def split: option.splits)

lemma subscribe_Returns_registry:
  assumes "subscribe channel callback s = Returns s'"
  shows "subscribers s' = AList.update channel (add callback (listeners s channel)) (subscribers s)"
  using assms
  by (auto simp: subscribe_def subscribeToChannels_def send_def wsSend_def listeners_def
      update_conv' split: option.splits readyState.splits if_splits)

lemma noEmptySets_step:
  assumes "noEmptySets s" and "step e s = Some s'"
    and "\<And>channel callback. e = AppSubscribe channel callback \<Longrightarrow>
           \<exists>r. subscribe channel callback s = Returns r"
  shows "noEmptySets s'"
proof (cases e)
  case AppConnect
  then show ?thesis using assms by (auto simp: noEmptySets_def connect_def)
next
  case (AppSubscribe ch cb)
  then obtain r where r: "subscribe ch cb s = Returns r" using assms(3) by blast
  then have "s' = r" using assms(2) AppSubscribe by simp
  then show ?thesis
    using assms(1) subscribe_Returns_registry [OF r]
      noEmptySets_update [of "subscribers s" "add cb (listeners s ch)" ch]
    by (simp add: noEmptySets_def add_not_Nil)
next
  case (AppUnsubscribe ch cb)
  then have "s' = unsubscribe ch cb s" using assms(2) by simp
  then show ?thesis using assms(1) by (simp add: noEmptySets_unsubscribe)
next
  case (AppSendUpdate ch d)
  then show ?thesis using assms send_fields [of "UpdateFrame ch d" s]
    by (auto simp: noEmptySets_def sendUpdate_def)
next
  case (AppSendDelete ch ks)
  then show ?thesis using assms send_fields [of "DeleteFrame ch ks" s]
    by (auto simp: noEmptySets_def sendDelete_def)
next
  case AppClose
  then show ?thesis using assms
    by (auto simp: noEmptySets_def close_def split: option.splits)
next
  case (Opens k)
  then have "subscribers s' = subscribers s"
    using assms(2)
    by (auto simp: onopen_def setReadyState_def settle_def resubscribe_def Let_def
        subscribeToChannels_def send_fields split: if_splits caller.splits)
  then show ?thesis using assms(1) by (simp add: noEmptySets_def)
next
  case (Message k m)
  then show ?thesis using assms
    by (cases m) (auto simp: noEmptySets_def split: if_splits)
next
  case (Fails k)
  then have "subscribers s' = subscribers s"
    using assms(2)
    by (auto simp: onclose_def onerror_def attemptReconnect_def setReadyState_def settle_def
        Let_def split: if_splits)
  then show ?thesis using assms(1) by (simp add: noEmptySets_def)
next
  case (Closes k)
  then have "subscribers s' = subscribers s"
    using assms(2)
    by (auto simp: onclose_def attemptReconnect_def setReadyState_def Let_def split: if_splits)
  then show ?thesis using assms(1) by (simp add: noEmptySets_def)
next
  case (TimerFires i)
  then show ?thesis using assms
    by (auto simp: noEmptySets_def connect_def split: if_splits)
qed

text \<open>
  \<^bold>\<open>C9.\<close> The claim is that \<open>subscribe\<close> sends a \<open>subscribe\<close> message exactly when the
  listener is the first of its channel. The message goes through \<open>send\<close>, which transmits
  only when the manager is connected: on a service that has not connected, the first
  listener of \<open>main:orders\<close> is registered and nothing is sent.
\<close>

theorem subscribe_before_connecting_sends_nothing:
  "map_of (subscribers newService) ''main:orders'' = None
   \<and> subscribe ''main:orders'' 0 newService =
       Returns \<lparr>ws = None, websocketId = None, connected = False,
                subscribers = [(''main:orders'', [0])],
                reconnectAttempts = 0, maxReconnectAttempts = 10, reconnectDelay = 1000,
                transports = [], timeouts = [], wire = []\<rparr>"
  by (simp add: newService_def service_defs)

text \<open>
  \<^bold>\<open>C9, as the code has it.\<close> Take a registry in which no channel has an empty set of
  listeners; every event keeps the registry so, except a \<open>subscribe\<close> that throws
  (\<open>noEmptySets_step\<close>). Then \<open>subscribe(channel, listener)\<close>, while the manager is
  connected over an open transport, sends a \<open>subscribe\<close> message for the channel if and
  only if the channel has no listener yet, that is, the listener is the first of its
  channel; while the manager is not connected, or its current transport is closing or
  closed, it sends nothing. In all these cases it adds the listener to the set of the
  channel, keeps the registry free of empty sets and returns; the handle it returns is
  \<open>unsubscribe channel callback\<close>. \<open>unsubscribe\<close> sends nothing, removes that listener
  alone from the set of the channel, removes the entry of the channel when the set
  becomes empty, leaves every other channel as it was and keeps the registry free of empty
  sets. The one case left out is a \<open>subscribe\<close> made while the manager is connected and
  its current transport is still connecting; \<open>subscribe_throws\<close> and
  \<open>run_subscribeWhileConnecting\<close> say what the code does there.
\<close>

theorem subscribe_and_unsubscribe:
  assumes "noEmptySets s"
  shows
  "(ws s = Some k \<and> k < length (transports s) \<and> readyState (transports s ! k) = OPEN
      \<and> connected s \<longrightarrow>
      (\<exists>s'. subscribe channel callback s = Returns s'
         \<and> wire s' = wire s @ (if listeners s channel = []
                                then [(k, Subscribe [channel])] else [])
         \<and> map_of (subscribers s') =
             (map_of (subscribers s))(channel \<mapsto> add callback (listeners s channel))
         \<and> noEmptySets s'))
   \<and> (ws s = None \<or> \<not> connected s
       \<or> (ws s = Some k \<and> k < length (transports s)
           \<and> (readyState (transports s ! k) = CLOSING \<or> readyState (transports s ! k) = CLOSED))
      \<longrightarrow>
      (\<exists>s'. subscribe channel callback s = Returns s'
         \<and> wire s' = wire s
         \<and> map_of (subscribers s') =
             (map_of (subscribers s))(channel \<mapsto> add callback (listeners s channel))
         \<and> noEmptySets s'))
   \<and> wire (unsubscribe channel callback s) = wire s
   \<and> map_of (subscribers (unsubscribe channel callback s)) =
       (case map_of (subscribers s) channel of
          None \<Rightarrow> map_of (subscribers s)
        | Some cbs \<Rightarrow>
            if removeAll callback cbs = [] then (map_of (subscribers s))(channel := None)
            else (map_of (subscribers s))(channel \<mapsto> removeAll callback cbs))
   \<and> listeners (unsubscribe channel callback s) channel = removeAll callback (listeners s channel)
   \<and> noEmptySets (unsubscribe channel callback s)"
proof (intro conjI impI)
  have upd: "\<forall>entry\<in>set (AList.update channel (add callback (listeners s channel))
                              (subscribers s)). snd entry \<noteq> []"
    using assms by (intro noEmptySets_update) (simp_all add: noEmptySets_def add_not_Nil)
  {
    assume a: "ws s = Some k \<and> k < length (transports s) \<and> readyState (transports s ! k) = OPEN
      \<and> connected s"
    then obtain s' where s': "subscribe channel callback s = Returns s'"
      "subscribers s' = AList.update channel (add callback (listeners s channel)) (subscribers s)"
      "wire s' = wire s @ (if map_of (subscribers s) channel = None
                           then [(k, Subscribe [channel])] else [])"
      using subscribe_returns [of s channel callback] by auto
    have "noEmptySets s'"
      using upd s'(2) by (simp add: noEmptySets_def)
    then show "\<exists>s'. subscribe channel callback s = Returns s'
         \<and> wire s' = wire s @ (if listeners s channel = []
                                then [(k, Subscribe [channel])] else [])
         \<and> map_of (subscribers s') =
             (map_of (subscribers s))(channel \<mapsto> add callback (listeners s channel))
         \<and> noEmptySets s'"
      using s' noEmptySets_entry [OF assms, of channel] by (simp add: update_conv')
  }
  {
    assume a: "ws s = None \<or> \<not> connected s
       \<or> (ws s = Some k \<and> k < length (transports s)
           \<and> (readyState (transports s ! k) = CLOSING \<or> readyState (transports s ! k) = CLOSED))"
    then obtain s' where s': "subscribe channel callback s = Returns s'"
      "subscribers s' = AList.update channel (add callback (listeners s channel)) (subscribers s)"
      "wire s' = wire s"
      using subscribe_returns [of s channel callback] by (auto split: option.splits)
    have "noEmptySets s'"
      using upd s'(2) by (simp add: noEmptySets_def)
    then show "\<exists>s'. subscribe channel callback s = Returns s'
         \<and> wire s' = wire s
         \<and> map_of (subscribers s') =
             (map_of (subscribers s))(channel \<mapsto> add callback (listeners s channel))
         \<and> noEmptySets s'"
      using s' by (simp add: update_conv')
  }
  show "wire (unsubscribe channel callback s) = wire s"
    by (simp add: unsubscribe_def Let_def split: option.splits)
  show "map_of (subscribers (unsubscribe channel callback s)) =
       (case map_of (subscribers s) channel of
          None \<Rightarrow> map_of (subscribers s)
        | Some cbs \<Rightarrow>
            if removeAll callback cbs = [] then (map_of (subscribers s))(channel := None)
            else (map_of (subscribers s))(channel \<mapsto> removeAll callback cbs))"
    by (simp add: unsubscribe_def Let_def update_conv' delete_conv' split: option.splits)
  show "listeners (unsubscribe channel callback s) channel = removeAll callback (listeners s channel)"
    by (simp add: unsubscribe_def listeners_def Let_def update_conv' delete_conv'
        split: option.splits)
  show "noEmptySets (unsubscribe channel callback s)"
    using assms by (rule noEmptySets_unsubscribe)
qed

theorem subscribe_and_unsubscribe_witness:
  "noEmptySets reopenedState
   \<and> ws reopenedState = Some 1 \<and> 1 < length (transports reopenedState)
   \<and> readyState (transports reopenedState ! 1) = OPEN \<and> connected reopenedState
   \<and> listeners reopenedState ''main:status'' = []
   \<and> (\<exists>s'. subscribe ''main:status'' 1 reopenedState = Returns s'
         \<and> wire s' = wire reopenedState @ [(1, Subscribe [''main:status''])]
         \<and> listeners s' ''main:status'' = [1])
   \<and> listeners reopenedState ''main:orders'' = [0]
   \<and> (\<exists>s'. subscribe ''main:orders'' 1 reopenedState = Returns s'
         \<and> wire s' = wire reopenedState
         \<and> listeners s' ''main:orders'' = [0, 1])
   \<and> noEmptySets newService \<and> ws newService = None
   \<and> (\<exists>s'. subscribe ''main:orders'' 0 newService = Returns s'
         \<and> wire s' = []
         \<and> listeners s' ''main:orders'' = [0])
   \<and> wire (unsubscribe ''main:orders'' 0 reopenedState) = wire reopenedState
   \<and> listeners (unsubscribe ''main:orders'' 0 reopenedState) ''main:orders'' = []
   \<and> map_of (subscribers (unsubscribe ''main:orders'' 0 reopenedState)) ''main:orders'' = None"
proof -
  have r: "noEmptySets reopenedState" by (simp add: noEmptySets_def reopenedState_def)
  have n: "noEmptySets newService" by (simp add: noEmptySets_def newService_def)
  show ?thesis
    using subscribe_and_unsubscribe
        [OF r, where k = 1 and channel = "''main:status''" and callback = 1]
      subscribe_and_unsubscribe
        [OF r, where k = 1 and channel = "''main:orders''" and callback = 1]
      subscribe_and_unsubscribe
        [OF n, where k = 0 and channel = "''main:orders''" and callback = 0]
      subscribe_and_unsubscribe
        [OF r, where k = 1 and channel = "''main:orders''" and callback = 0] r n
    by (auto simp: reopenedState_def newService_def add_def listeners_def)
qed

end
